theory Spec2Isabelle
  imports Main "HOL-Library.Word"
begin

section \<open>The scheduler boost coordinator of kernel/sched/boost.c\<close>

text \<open>
  The file keeps one reference count per boost type, aggregates the counts into one active
  boost type and one placement policy, and calls four hooks of the scheduler when a count
  crosses an edge. The embedding follows the C text statement by statement:
  \<^item> \<open>int\<close> and \<open>unsigned int\<close> are 32-bit words. \<open>++\<close> and \<open>--\<close> are the word
    operations, so \<open>++\<close> on \<open>INT_MAX\<close> gives \<open>INT_MIN\<close>: ISO C leaves this overflow
    undefined, the kernel is compiled with \<open>-fno-strict-overflow\<close> and wraps. The
    comparisons of an \<open>int\<close> are the signed ones (\<open>\<le>s\<close>, \<open><s\<close>).
  \<^item> The globals of the file are the fields of the record \<open>boost_globals\<close>.
  \<^item> The array \<open>boost_refcount\<close> is a function from the index to the entry. The code
    only indexes it with the three constants \<open>FULL_THROTTLE_BOOST\<close>,
    \<open>CONSERVATIVE_BOOST\<close> and \<open>RESTRAINED_BOOST\<close>, all below \<open>MAX_NUM_BOOST_TYPE\<close>.
  \<^item> Every call of a hook, of the tracepoint and of \<open>WARN_ON\<close> is appended to the field
    \<open>calls\<close>, in program order.
  \<^item> \<open>boost_mutex\<close> is held around every entry point; the model is the sequential
    behaviour of one entry point at a time, which is what the lock leaves observable.
\<close>

type_synonym c_int = "32 word"
type_synonym c_uint = "32 word"

subsection \<open>Declarations of sched.h and errno.h\<close>

text \<open>
  Modelled from the spec: the header sched.h, with the macros of the seven request codes,
  \<open>MAX_NUM_BOOST_TYPE\<close> and \<open>enum sched_boost_policy\<close>, is not among the sources.
  The spec fixes four enable codes (\<open>None\<close>, \<open>FullThrottle\<close>, \<open>Conservative\<close>,
  \<open>Restrained\<close>) and three disable codes, seven legal values in all, which
  \<open>verify_boost_params\<close> accepts as the range from \<open>RESTRAINED_BOOST_DISABLE\<close> to
  \<open>RESTRAINED_BOOST\<close>. The values below are those of the kernel header: the enable codes
  0 to 3 (also the indices into \<open>boost_refcount\<close>) and their negations for the disable
  codes. They are the only seven values of that range.
\<close>

definition NO_BOOST :: c_int where "NO_BOOST = 0"
definition FULL_THROTTLE_BOOST :: c_int where "FULL_THROTTLE_BOOST = 1"
definition CONSERVATIVE_BOOST :: c_int where "CONSERVATIVE_BOOST = 2"
definition RESTRAINED_BOOST :: c_int where "RESTRAINED_BOOST = 3"
definition FULL_THROTTLE_BOOST_DISABLE :: c_int where "FULL_THROTTLE_BOOST_DISABLE = - 1"
definition CONSERVATIVE_BOOST_DISABLE :: c_int where "CONSERVATIVE_BOOST_DISABLE = - 2"
definition RESTRAINED_BOOST_DISABLE :: c_int where "RESTRAINED_BOOST_DISABLE = - 3"

text \<open>
  Modelled from the spec: \<open>enum sched_boost_policy\<close> of sched.h, the closed set
  \<open>None\<close>, \<open>OnBig\<close>, \<open>OnAll\<close>. \<open>SCHED_BOOST_NONE\<close> is the enumerator 0: the test
  \<open>if (boost_policy_dt)\<close> of \<open>set_boost_policy\<close> is \<open>boost_policy_dt \<noteq> SCHED_BOOST_NONE\<close>.
\<close>

datatype sched_boost_policy = SCHED_BOOST_NONE | SCHED_BOOST_ON_BIG | SCHED_BOOST_ON_ALL

text \<open>Modelled from the spec: \<open>EINVAL\<close> of errno.h, the one error of the entry points.\<close>

definition EINVAL :: c_int where "EINVAL = 22"

subsection \<open>Globals, hooks and the environment\<close>

text \<open>The calls the file makes into the rest of the kernel, with their arguments.\<close>

datatype hook_call =
    core_ctl_set_boost bool
  | walt_enable_frequency_aggregation bool
  | update_cgroup_boost_settings
  | restore_cgroup_boost_settings
  | trace_sched_set_boost c_int
  | WARN_ON

record boost_globals =
  sysctl_sched_boost :: c_uint
  sched_boost_type :: c_uint
  boost_policy :: sched_boost_policy
  boost_policy_dt :: sched_boost_policy
  boost_refcount :: "c_int \<Rightarrow> c_int"
  calls :: "hook_call list"

text \<open>
  The two globals of the scheduler that \<open>set_boost_policy\<close> reads and this file never
  writes.
\<close>

record sched_env =
  min_possible_efficiency :: c_uint
  max_possible_efficiency :: c_uint

text \<open>The static initialisers: every global is zero, \<open>boost_policy_dt\<close> is \<open>SCHED_BOOST_NONE\<close>.\<close>

definition boost_init :: boost_globals where
  "boost_init =
     \<lparr> sysctl_sched_boost = 0, sched_boost_type = 0, boost_policy = SCHED_BOOST_NONE,
       boost_policy_dt = SCHED_BOOST_NONE, boost_refcount = (\<lambda>_. 0), calls = [] \<rparr>"

definition call :: "hook_call \<Rightarrow> boost_globals \<Rightarrow> boost_globals" where
  "call h s = s\<lparr>calls := calls s @ [h]\<rparr>"

definition set_refcount :: "c_int \<Rightarrow> c_int \<Rightarrow> boost_globals \<Rightarrow> boost_globals" where
  "set_refcount i v s = s\<lparr>boost_refcount := (boost_refcount s)(i := v)\<rparr>"

subsection \<open>set\_boost\_policy and verify\_boost\_params\<close>

definition set_boost_policy :: "sched_env \<Rightarrow> c_int \<Rightarrow> boost_globals \<Rightarrow> boost_globals" where
  "set_boost_policy env type s =
     (if type = NO_BOOST \<or> type = RESTRAINED_BOOST then s\<lparr>boost_policy := SCHED_BOOST_NONE\<rparr>
      else if boost_policy_dt s \<noteq> SCHED_BOOST_NONE then s\<lparr>boost_policy := boost_policy_dt s\<rparr>
      else if min_possible_efficiency env \<noteq> max_possible_efficiency env
        then s\<lparr>boost_policy := SCHED_BOOST_ON_BIG\<rparr>
      else s\<lparr>boost_policy := SCHED_BOOST_ON_ALL\<rparr>)"

definition verify_boost_params :: "c_int \<Rightarrow> bool" where
  "verify_boost_params type \<longleftrightarrow> RESTRAINED_BOOST_DISABLE \<le>s type \<and> type \<le>s RESTRAINED_BOOST"

subsection \<open>\_sched\_set\_boost\<close>

text \<open>One definition per case label of the switch.\<close>

definition case_NO_BOOST :: "boost_globals \<Rightarrow> boost_globals" where
  "case_NO_BOOST s =
     (let s1 = (if 0 <s boost_refcount s FULL_THROTTLE_BOOST
                then set_refcount FULL_THROTTLE_BOOST 0
                       (call (walt_enable_frequency_aggregation False)
                          (call (core_ctl_set_boost False) s))
                else s);
          s2 = (if 0 <s boost_refcount s1 CONSERVATIVE_BOOST
                then set_refcount CONSERVATIVE_BOOST 0 (call restore_cgroup_boost_settings s1)
                else s1)
      in if 0 <s boost_refcount s2 RESTRAINED_BOOST
         then set_refcount RESTRAINED_BOOST 0 (call (walt_enable_frequency_aggregation False) s2)
         else s2)"

definition case_FULL_THROTTLE_BOOST :: "boost_globals \<Rightarrow> boost_globals" where
  "case_FULL_THROTTLE_BOOST s =
     (let s1 = set_refcount FULL_THROTTLE_BOOST (boost_refcount s FULL_THROTTLE_BOOST + 1) s
      in if boost_refcount s1 FULL_THROTTLE_BOOST = 1
         then (let s2 = call restore_cgroup_boost_settings (call (core_ctl_set_boost True) s1)
               in if boost_refcount s2 RESTRAINED_BOOST = 0
                  then call (walt_enable_frequency_aggregation True) s2
                  else s2)
         else s1)"

definition case_CONSERVATIVE_BOOST :: "boost_globals \<Rightarrow> boost_globals" where
  "case_CONSERVATIVE_BOOST s =
     (let s1 = set_refcount CONSERVATIVE_BOOST (boost_refcount s CONSERVATIVE_BOOST + 1) s
      in if boost_refcount s1 CONSERVATIVE_BOOST = 1 \<and> boost_refcount s1 FULL_THROTTLE_BOOST = 0
         then call update_cgroup_boost_settings s1
         else s1)"

definition case_RESTRAINED_BOOST :: "boost_globals \<Rightarrow> boost_globals" where
  "case_RESTRAINED_BOOST s =
     (let s1 = set_refcount RESTRAINED_BOOST (boost_refcount s RESTRAINED_BOOST + 1) s
      in if boost_refcount s1 RESTRAINED_BOOST = 1 \<and> boost_refcount s1 FULL_THROTTLE_BOOST = 0
         then call (walt_enable_frequency_aggregation True) s1
         else s1)"

definition case_FULL_THROTTLE_BOOST_DISABLE :: "boost_globals \<Rightarrow> boost_globals" where
  "case_FULL_THROTTLE_BOOST_DISABLE s =
     (if 1 \<le>s boost_refcount s FULL_THROTTLE_BOOST
      then (let s1 = set_refcount FULL_THROTTLE_BOOST (boost_refcount s FULL_THROTTLE_BOOST - 1) s
            in if boost_refcount s1 FULL_THROTTLE_BOOST = 0
               then (let s2 = call (core_ctl_set_boost False) s1;
                         s3 = (if 1 \<le>s boost_refcount s2 CONSERVATIVE_BOOST
                               then call update_cgroup_boost_settings s2 else s2)
                     in if boost_refcount s3 RESTRAINED_BOOST = 0
                        then call (walt_enable_frequency_aggregation False) s3
                        else s3)
               else s1)
      else s)"

definition case_CONSERVATIVE_BOOST_DISABLE :: "boost_globals \<Rightarrow> boost_globals" where
  "case_CONSERVATIVE_BOOST_DISABLE s =
     (if 1 \<le>s boost_refcount s CONSERVATIVE_BOOST
      then (let s1 = set_refcount CONSERVATIVE_BOOST (boost_refcount s CONSERVATIVE_BOOST - 1) s
            in if boost_refcount s1 CONSERVATIVE_BOOST = 0
               then call restore_cgroup_boost_settings s1
               else s1)
      else s)"

definition case_RESTRAINED_BOOST_DISABLE :: "boost_globals \<Rightarrow> boost_globals" where
  "case_RESTRAINED_BOOST_DISABLE s =
     (if 1 \<le>s boost_refcount s RESTRAINED_BOOST
      then (let s1 = set_refcount RESTRAINED_BOOST (boost_refcount s RESTRAINED_BOOST - 1) s
            in if boost_refcount s1 RESTRAINED_BOOST = 0 \<and> boost_refcount s1 FULL_THROTTLE_BOOST = 0
               then call (walt_enable_frequency_aggregation False) s1
               else s1)
      else s)"

text \<open>The code after the switch: "Aggregate final boost type", publish, policy, tracepoint.\<close>

definition aggregate_final_boost_type :: "boost_globals \<Rightarrow> c_int" where
  "aggregate_final_boost_type s =
     (if 1 \<le>s boost_refcount s FULL_THROTTLE_BOOST then FULL_THROTTLE_BOOST
      else if 1 \<le>s boost_refcount s CONSERVATIVE_BOOST then CONSERVATIVE_BOOST
      else if 1 \<le>s boost_refcount s RESTRAINED_BOOST then RESTRAINED_BOOST
      else NO_BOOST)"

definition publish :: "sched_env \<Rightarrow> boost_globals \<Rightarrow> boost_globals" where
  "publish env s =
     (let type = aggregate_final_boost_type s;
          s1 = s\<lparr>sched_boost_type := type\<rparr>;
          s2 = s1\<lparr>sysctl_sched_boost := type\<rparr>;
          s3 = set_boost_policy env type s2
      in call (trace_sched_set_boost type) s3)"

text \<open>
  \<open>_sched_set_boost\<close> (an Isabelle name cannot start with an underscore). The default
  label warns and returns before the aggregation.
\<close>

definition u_sched_set_boost :: "sched_env \<Rightarrow> c_int \<Rightarrow> boost_globals \<Rightarrow> boost_globals" where
  "u_sched_set_boost env type s =
     (if type = NO_BOOST then publish env (case_NO_BOOST s)
      else if type = FULL_THROTTLE_BOOST then publish env (case_FULL_THROTTLE_BOOST s)
      else if type = CONSERVATIVE_BOOST then publish env (case_CONSERVATIVE_BOOST s)
      else if type = RESTRAINED_BOOST then publish env (case_RESTRAINED_BOOST s)
      else if type = FULL_THROTTLE_BOOST_DISABLE
        then publish env (case_FULL_THROTTLE_BOOST_DISABLE s)
      else if type = CONSERVATIVE_BOOST_DISABLE
        then publish env (case_CONSERVATIVE_BOOST_DISABLE s)
      else if type = RESTRAINED_BOOST_DISABLE
        then publish env (case_RESTRAINED_BOOST_DISABLE s)
      else call WARN_ON s)"

subsection \<open>sched\_boost\_parse\_dt\<close>

text \<open>
  The device tree as the two lookups the function makes: a path gives a node or nothing
  (\<open>of_find_node_by_path\<close> returns \<open>NULL\<close>), a node and a property name give a string
  or nothing (\<open>of_property_read_string\<close> returns an error).
\<close>

type_synonym device_node = "string \<rightharpoonup> string"
type_synonym device_tree = "string \<rightharpoonup> device_node"

definition sched_boost_parse_dt :: "device_tree \<Rightarrow> boost_globals \<Rightarrow> boost_globals" where
  "sched_boost_parse_dt dt s =
     (case dt ''/sched-hmp'' of
        None \<Rightarrow> s
      | Some sn \<Rightarrow>
          (case sn ''boost-policy'' of
             None \<Rightarrow> s
           | Some bp \<Rightarrow>
               if bp = ''boost-on-big'' then s\<lparr>boost_policy_dt := SCHED_BOOST_ON_BIG\<rparr>
               else if bp = ''boost-on-all'' then s\<lparr>boost_policy_dt := SCHED_BOOST_ON_ALL\<rparr>
               else s))"

subsection \<open>The entry points\<close>

text \<open>\<open>sched_set_boost\<close> returns the new globals and \<open>ret\<close>.\<close>

definition sched_set_boost :: "sched_env \<Rightarrow> c_int \<Rightarrow> boost_globals \<Rightarrow> boost_globals \<times> c_int" where
  "sched_set_boost env type s =
     (if verify_boost_params type then (u_sched_set_boost env type s, 0)
      else (s, - EINVAL))"

text \<open>
  Modelled from the spec: \<open>proc_dointvec_minmax\<close> and the \<open>ctl_table\<close> entry are not among
  the sources. The spec describes the mechanism as the generic bounded-integer
  one, with the minimum and maximum enforced externally: a write parses the integer of the
  user buffer and stores it in the table's data when it lies within the bounds, and fails
  with \<open>-EINVAL\<close> without storing otherwise; a read gives the user the stored integer.
  The table's data is \<open>sysctl_sched_boost\<close> ("To/from userspace"). The result is
  \<open>ret\<close>, the new value of the data, and what a read hands to the user.
\<close>

record ctl_table =
  extra1 :: c_int
  extra2 :: c_int

definition proc_dointvec_minmax ::
    "ctl_table \<Rightarrow> bool \<Rightarrow> c_int \<Rightarrow> c_uint \<Rightarrow> c_int \<times> c_uint \<times> c_int option" where
  "proc_dointvec_minmax table write buffer data =
     (if write
      then (if extra1 table \<le>s buffer \<and> buffer \<le>s extra2 table then (0, buffer, None)
            else (- EINVAL, data, None))
      else (0, data, Some data))"

text \<open>
  \<open>sched_boost_handler\<close>: \<open>buffer\<close> is the integer a write carries. The result is the
  new globals, \<open>ret\<close>, and the integer a read hands to the user.
\<close>

definition sched_boost_handler ::
    "sched_env \<Rightarrow> ctl_table \<Rightarrow> bool \<Rightarrow> c_int \<Rightarrow> boost_globals
      \<Rightarrow> boost_globals \<times> c_int \<times> c_int option" where
  "sched_boost_handler env table write buffer s =
     (case proc_dointvec_minmax table write buffer (sysctl_sched_boost s) of
        (ret, data, out) \<Rightarrow>
          (let s1 = s\<lparr>sysctl_sched_boost := data\<rparr>
           in if ret \<noteq> 0 \<or> \<not> write then (s1, ret, out)
              else if verify_boost_params (sysctl_sched_boost s1)
                then (u_sched_set_boost env (sysctl_sched_boost s1) s1, ret, out)
              else (s1, - EINVAL, out)))"

text \<open>A sequence of direct requests, each through \<open>sched_set_boost\<close>.\<close>

fun run_boosts :: "sched_env \<Rightarrow> c_int list \<Rightarrow> boost_globals \<Rightarrow> boost_globals" where
  "run_boosts env [] s = s"
| "run_boosts env (t # ts) s = run_boosts env ts (fst (sched_set_boost env t s))"

text \<open>The state after the static initialisers and the device-tree parse of the boot.\<close>

definition boot :: "device_tree \<Rightarrow> boost_globals" where
  "boot dt = sched_boost_parse_dt dt boost_init"

subsection \<open>The rules of the specification\<close>

text \<open>
  The seven legal request codes: the four enable codes, \<open>NO_BOOST\<close> among them, and the
  three disable codes.
\<close>

definition legal_requests :: "c_int set" where
  "legal_requests =
     {NO_BOOST, FULL_THROTTLE_BOOST, CONSERVATIVE_BOOST, RESTRAINED_BOOST,
      FULL_THROTTLE_BOOST_DISABLE, CONSERVATIVE_BOOST_DISABLE, RESTRAINED_BOOST_DISABLE}"

text \<open>
  The aggregation rule as the specification words it: FullThrottle if its refcount is
  above 0, else Conservative if its refcount is above 0, else Restrained if its refcount
  is above 0, else None.
\<close>

definition aggregate :: "(c_int \<Rightarrow> c_int) \<Rightarrow> c_int" where
  "aggregate table =
     (if 0 <s table FULL_THROTTLE_BOOST then FULL_THROTTLE_BOOST
      else if 0 <s table CONSERVATIVE_BOOST then CONSERVATIVE_BOOST
      else if 0 <s table RESTRAINED_BOOST then RESTRAINED_BOOST
      else NO_BOOST)"

text \<open>
  The four-case policy rule as the specification words it, over the aggregate kind, the
  optional boot-time override and the heterogeneity flag.
\<close>

definition derive_policy ::
    "c_int \<Rightarrow> sched_boost_policy option \<Rightarrow> bool \<Rightarrow> sched_boost_policy" where
  "derive_policy active_kind override heterogeneous =
     (if active_kind = NO_BOOST \<or> active_kind = RESTRAINED_BOOST then SCHED_BOOST_NONE
      else case override of
             Some p \<Rightarrow> p
           | None \<Rightarrow> if heterogeneous then SCHED_BOOST_ON_BIG else SCHED_BOOST_ON_ALL)"

text \<open>
  How the code holds the two inputs of the rule: the override is set when
  \<open>boost_policy_dt\<close> is not \<open>SCHED_BOOST_NONE\<close>; the processor set is heterogeneous when
  the minimum and the maximum efficiency differ.
\<close>

definition boot_override :: "boost_globals \<Rightarrow> sched_boost_policy option" where
  "boot_override s =
     (if boost_policy_dt s = SCHED_BOOST_NONE then None else Some (boost_policy_dt s))"

definition heterogeneous :: "sched_env \<Rightarrow> bool" where
  "heterogeneous env \<longleftrightarrow> min_possible_efficiency env \<noteq> max_possible_efficiency env"

text \<open>A homogeneous processor set, for the concrete runs below.\<close>

definition env_homogeneous :: sched_env where
  "env_homogeneous = \<lparr> min_possible_efficiency = 1024, max_possible_efficiency = 1024 \<rparr>"

text \<open>The calls that one request appends to the log.\<close>

definition fired :: "sched_env \<Rightarrow> c_int \<Rightarrow> boost_globals \<Rightarrow> hook_call list" where
  "fired env type s = drop (length (calls s)) (calls (fst (sched_set_boost env type s)))"

text \<open>The four downstream hooks, as opposed to the tracepoint and the warning.\<close>

fun downstream :: "hook_call \<Rightarrow> bool" where
  "downstream (core_ctl_set_boost b) = True"
| "downstream (walt_enable_frequency_aggregation b) = True"
| "downstream update_cgroup_boost_settings = True"
| "downstream restore_cgroup_boost_settings = True"
| "downstream (trace_sched_set_boost t) = False"
| "downstream WARN_ON = False"

text \<open>
  The side effects that the specification's sentences give to the clear-all request: for
  each of FullThrottle, Conservative, Restrained in this order, if its refcount is above 0,
  the "full disable" side effects of that kind and the reset of its refcount. The full
  disable of FullThrottle is \<open>core_control_boost(disable)\<close>, then
  \<open>update_cgroup_boost_settings()\<close> if the Conservative refcount is at least 1, then
  \<open>frequency_aggregation(disable)\<close> if the Restrained refcount is 0; of Conservative,
  \<open>restore_cgroup_boost_settings()\<close>; of Restrained, \<open>frequency_aggregation(disable)\<close>
  if the FullThrottle refcount is 0.
\<close>

definition full_disable_FullThrottle :: "(c_int \<Rightarrow> c_int) \<Rightarrow> hook_call list" where
  "full_disable_FullThrottle table =
     [core_ctl_set_boost False]
     @ (if 1 \<le>s table CONSERVATIVE_BOOST then [update_cgroup_boost_settings] else [])
     @ (if table RESTRAINED_BOOST = 0 then [walt_enable_frequency_aggregation False] else [])"

definition full_disable_Conservative :: "(c_int \<Rightarrow> c_int) \<Rightarrow> hook_call list" where
  "full_disable_Conservative table = [restore_cgroup_boost_settings]"

definition full_disable_Restrained :: "(c_int \<Rightarrow> c_int) \<Rightarrow> hook_call list" where
  "full_disable_Restrained table =
     (if table FULL_THROTTLE_BOOST = 0 then [walt_enable_frequency_aggregation False] else [])"

definition clear_all_effects :: "(c_int \<Rightarrow> c_int) \<Rightarrow> hook_call list" where
  "clear_all_effects table =
     (let e1 = (if 0 <s table FULL_THROTTLE_BOOST then full_disable_FullThrottle table else []);
          t1 = (if 0 <s table FULL_THROTTLE_BOOST then table(FULL_THROTTLE_BOOST := 0) else table);
          e2 = (if 0 <s t1 CONSERVATIVE_BOOST then full_disable_Conservative t1 else []);
          t2 = (if 0 <s t1 CONSERVATIVE_BOOST then t1(CONSERVATIVE_BOOST := 0) else t1);
          e3 = (if 0 <s t2 RESTRAINED_BOOST then full_disable_Restrained t2 else [])
      in e1 @ e2 @ e3)"

text \<open>
  Modelled from the spec: the \<open>ctl_table\<close> entry of the endpoint is not among the
  sources. Its bounds, enforced by the generic mechanism, are the least and the
  greatest legal request code.
\<close>

definition boost_ctl_table :: ctl_table where
  "boost_ctl_table = \<lparr> extra1 = RESTRAINED_BOOST_DISABLE, extra2 = RESTRAINED_BOOST \<rparr>"

text \<open>
  The published values agree with the refcounts: what the aggregation leaves behind.
\<close>

definition published_consistent :: "sched_env \<Rightarrow> boost_globals \<Rightarrow> bool" where
  "published_consistent env s \<longleftrightarrow>
     sched_boost_type s = aggregate (boost_refcount s)
     \<and> sysctl_sched_boost s = aggregate (boost_refcount s)
     \<and> boost_policy s =
         derive_policy (aggregate (boost_refcount s)) (boot_override s) (heterogeneous env)"

text \<open>The three boost kinds: the enable code of each with its matching disable code.\<close>

definition boost_kinds :: "(c_int \<times> c_int) set" where
  "boost_kinds =
     {(FULL_THROTTLE_BOOST, FULL_THROTTLE_BOOST_DISABLE),
      (CONSERVATIVE_BOOST, CONSERVATIVE_BOOST_DISABLE),
      (RESTRAINED_BOOST, RESTRAINED_BOOST_DISABLE)}"

text \<open>
  Modelled from the spec: \<open>INT_MAX\<close> of limits.h is not among the sources. It is the
  greatest value of the 32-bit \<open>int\<close>, the greatest refcount that the specification's
  non-negative counter can hold in the code.
\<close>

definition INT_MAX :: c_int where "INT_MAX = 2147483647"

text \<open>
  No request of the sequence enables the kind \<open>k\<close> while the refcount of \<open>k\<close> is
  \<open>INT_MAX\<close>; the refcount is read in the state each request finds.
\<close>

fun enables_below_INT_MAX :: "sched_env \<Rightarrow> c_int \<Rightarrow> c_int list \<Rightarrow> boost_globals \<Rightarrow> bool" where
  "enables_below_INT_MAX env k [] s = True"
| "enables_below_INT_MAX env k (t # ts) s =
     ((t = k \<longrightarrow> boost_refcount s k \<noteq> INT_MAX)
      \<and> enables_below_INT_MAX env k ts (fst (sched_set_boost env t s)))"

section \<open>Properties\<close>

subsection \<open>Request codes and signed comparisons\<close>

lemmas boost_codes =
  NO_BOOST_def FULL_THROTTLE_BOOST_def CONSERVATIVE_BOOST_def RESTRAINED_BOOST_def
  FULL_THROTTLE_BOOST_DISABLE_def CONSERVATIVE_BOOST_DISABLE_def RESTRAINED_BOOST_DISABLE_def

lemmas case_defs =
  case_NO_BOOST_def case_FULL_THROTTLE_BOOST_def case_CONSERVATIVE_BOOST_def
  case_RESTRAINED_BOOST_def case_FULL_THROTTLE_BOOST_DISABLE_def
  case_CONSERVATIVE_BOOST_DISABLE_def case_RESTRAINED_BOOST_DISABLE_def

lemma sint_small:
  fixes w :: c_int
  assumes "- 3 \<le> sint w" and "sint w \<le> 3"
  shows "w = - 3 \<or> w = - 2 \<or> w = - 1 \<or> w = 0 \<or> w = 1 \<or> w = 2 \<or> w = 3"
proof -
  from assms have "sint w = - 3 \<or> sint w = - 2 \<or> sint w = - 1 \<or> sint w = 0
      \<or> sint w = 1 \<or> sint w = 2 \<or> sint w = 3"
    by arith
  moreover have "word_of_int (sint w) = w" by simp
  ultimately show ?thesis
    by (elim disjE) (simp_all only: , (drule sym, simp)+)
qed

text \<open>The range check accepts the seven codes and nothing else.\<close>

lemma verify_boost_params_iff: "verify_boost_params type \<longleftrightarrow> type \<in> legal_requests"
  unfolding verify_boost_params_def legal_requests_def boost_codes word_sle_eq
  using sint_small [of type] by auto

lemma one_sle_iff: "1 \<le>s (x :: c_int) \<longleftrightarrow> 0 <s x"
  unfolding word_sle_eq word_sless_alt by simp linarith

lemma aggregate_final_boost_type_eq:
  "aggregate_final_boost_type s = aggregate (boost_refcount s)"
  by (simp add: aggregate_final_boost_type_def aggregate_def one_sle_iff)

lemma aggregate_cong:
  assumes "table FULL_THROTTLE_BOOST = table' FULL_THROTTLE_BOOST"
    and "table CONSERVATIVE_BOOST = table' CONSERVATIVE_BOOST"
    and "table RESTRAINED_BOOST = table' RESTRAINED_BOOST"
  shows "aggregate table = aggregate table'"
  using assms by (simp add: aggregate_def)

subsection \<open>What each step reads and writes\<close>

lemma call_fields [simp]:
  "boost_refcount (call h s) = boost_refcount s"
  "sched_boost_type (call h s) = sched_boost_type s"
  "sysctl_sched_boost (call h s) = sysctl_sched_boost s"
  "boost_policy (call h s) = boost_policy s"
  "boost_policy_dt (call h s) = boost_policy_dt s"
  "calls (call h s) = calls s @ [h]"
  by (simp_all add: call_def)

lemma set_refcount_fields [simp]:
  "boost_refcount (set_refcount i v s) = (boost_refcount s)(i := v)"
  "sched_boost_type (set_refcount i v s) = sched_boost_type s"
  "sysctl_sched_boost (set_refcount i v s) = sysctl_sched_boost s"
  "boost_policy (set_refcount i v s) = boost_policy s"
  "boost_policy_dt (set_refcount i v s) = boost_policy_dt s"
  "calls (set_refcount i v s) = calls s"
  by (simp_all add: set_refcount_def)

lemma set_boost_policy_fields [simp]:
  "boost_refcount (set_boost_policy env t s) = boost_refcount s"
  "sched_boost_type (set_boost_policy env t s) = sched_boost_type s"
  "sysctl_sched_boost (set_boost_policy env t s) = sysctl_sched_boost s"
  "boost_policy_dt (set_boost_policy env t s) = boost_policy_dt s"
  "calls (set_boost_policy env t s) = calls s"
  by (simp_all add: set_boost_policy_def)

lemma set_boost_policy_derive:
  "boost_policy (set_boost_policy env kind s) =
     derive_policy kind (boot_override s) (heterogeneous env)"
  by (simp add: set_boost_policy_def derive_policy_def boot_override_def heterogeneous_def)

lemma publish_fields [simp]:
  "boost_refcount (publish env s) = boost_refcount s"
  "sched_boost_type (publish env s) = aggregate (boost_refcount s)"
  "sysctl_sched_boost (publish env s) = aggregate (boost_refcount s)"
  "boost_policy_dt (publish env s) = boost_policy_dt s"
  "calls (publish env s) = calls s @ [trace_sched_set_boost (aggregate (boost_refcount s))]"
  "boost_policy (publish env s) =
     derive_policy (aggregate (boost_refcount s)) (boot_override s) (heterogeneous env)"
  by (simp_all add: publish_def Let_def aggregate_final_boost_type_eq set_boost_policy_derive
    boot_override_def)

lemma boot_fields [simp]:
  "boost_refcount (boot dt) = (\<lambda>_. 0)"
  "calls (boot dt) = []"
  "sched_boost_type (boot dt) = 0"
  "sysctl_sched_boost (boot dt) = 0"
  "boost_policy (boot dt) = SCHED_BOOST_NONE"
  by (simp_all add: boot_def sched_boost_parse_dt_def boost_init_def split: option.splits)

lemma u_sched_set_boost_simps:
  "u_sched_set_boost env NO_BOOST s = publish env (case_NO_BOOST s)"
  "u_sched_set_boost env FULL_THROTTLE_BOOST s = publish env (case_FULL_THROTTLE_BOOST s)"
  "u_sched_set_boost env CONSERVATIVE_BOOST s = publish env (case_CONSERVATIVE_BOOST s)"
  "u_sched_set_boost env RESTRAINED_BOOST s = publish env (case_RESTRAINED_BOOST s)"
  "u_sched_set_boost env FULL_THROTTLE_BOOST_DISABLE s =
     publish env (case_FULL_THROTTLE_BOOST_DISABLE s)"
  "u_sched_set_boost env CONSERVATIVE_BOOST_DISABLE s =
     publish env (case_CONSERVATIVE_BOOST_DISABLE s)"
  "u_sched_set_boost env RESTRAINED_BOOST_DISABLE s =
     publish env (case_RESTRAINED_BOOST_DISABLE s)"
  by (simp_all add: u_sched_set_boost_def boost_codes)

text \<open>Every legal request ends in the aggregation, and none writes \<open>boost_policy_dt\<close>.\<close>

lemma legal_requestsE:
  assumes "type \<in> legal_requests"
  obtains s1 where "u_sched_set_boost env type s = publish env s1"
    and "boost_policy_dt s1 = boost_policy_dt s"
proof -
  from assms consider "type = NO_BOOST" | "type = FULL_THROTTLE_BOOST"
    | "type = CONSERVATIVE_BOOST" | "type = RESTRAINED_BOOST"
    | "type = FULL_THROTTLE_BOOST_DISABLE" | "type = CONSERVATIVE_BOOST_DISABLE"
    | "type = RESTRAINED_BOOST_DISABLE"
    by (auto simp: legal_requests_def)
  then show thesis
  proof cases
    case 1 then show ?thesis
      by (intro that [of "case_NO_BOOST s"])
        (simp_all add: u_sched_set_boost_simps case_NO_BOOST_def Let_def)
  next
    case 2 then show ?thesis
      by (intro that [of "case_FULL_THROTTLE_BOOST s"])
        (simp_all add: u_sched_set_boost_simps case_FULL_THROTTLE_BOOST_def Let_def)
  next
    case 3 then show ?thesis
      by (intro that [of "case_CONSERVATIVE_BOOST s"])
        (simp_all add: u_sched_set_boost_simps case_CONSERVATIVE_BOOST_def Let_def)
  next
    case 4 then show ?thesis
      by (intro that [of "case_RESTRAINED_BOOST s"])
        (simp_all add: u_sched_set_boost_simps case_RESTRAINED_BOOST_def Let_def)
  next
    case 5 then show ?thesis
      by (intro that [of "case_FULL_THROTTLE_BOOST_DISABLE s"])
        (simp_all add: u_sched_set_boost_simps case_FULL_THROTTLE_BOOST_DISABLE_def Let_def)
  next
    case 6 then show ?thesis
      by (intro that [of "case_CONSERVATIVE_BOOST_DISABLE s"])
        (simp_all add: u_sched_set_boost_simps case_CONSERVATIVE_BOOST_DISABLE_def Let_def)
  next
    case 7 then show ?thesis
      by (intro that [of "case_RESTRAINED_BOOST_DISABLE s"])
        (simp_all add: u_sched_set_boost_simps case_RESTRAINED_BOOST_DISABLE_def Let_def)
  qed
qed

lemma sched_set_boost_legal:
  "type \<in> legal_requests \<Longrightarrow> sched_set_boost env type s = (u_sched_set_boost env type s, 0)"
  by (simp add: sched_set_boost_def verify_boost_params_iff)

lemma sched_set_boost_illegal:
  "type \<notin> legal_requests \<Longrightarrow> sched_set_boost env type s = (s, - EINVAL)"
  by (simp add: sched_set_boost_def verify_boost_params_iff)

lemma run_boosts_append:
  "run_boosts env (xs @ ys) s = run_boosts env ys (run_boosts env xs s)"
  by (induction xs arbitrary: s) simp_all

lemma run_boosts_snoc:
  "run_boosts env (reqs @ [t]) s = fst (sched_set_boost env t (run_boosts env reqs s))"
  by (simp add: run_boosts_append)

lemma published_kind_legal:
  assumes "type \<in> legal_requests"
  shows "sched_boost_type (fst (sched_set_boost env type s)) =
           aggregate (boost_refcount (fst (sched_set_boost env type s)))"
proof -
  obtain s1 where s1: "u_sched_set_boost env type s = publish env s1"
    using assms by (rule legal_requestsE)
  show ?thesis
    by (simp add: sched_set_boost_legal [OF assms] s1)
qed

subsection \<open>The aggregate kind\<close>

text \<open>
  C1. After every legal request, whatever requests came before it and whatever the state
  they started from, the published kind \<open>sched_boost_type\<close> is FullThrottle if its
  refcount is above 0, else Conservative if its refcount is above 0, else Restrained if
  its refcount is above 0, else None. The kind depends on the refcounts alone: two request
  sequences that end with the same three refcounts publish the same kind, in whatever
  order their requests came.
\<close>

theorem published_kind_is_aggregate:
  assumes "t \<in> legal_requests" and "t' \<in> legal_requests"
    and "boost_refcount (run_boosts env (reqs @ [t]) s) FULL_THROTTLE_BOOST =
         boost_refcount (run_boosts env' (reqs' @ [t']) s') FULL_THROTTLE_BOOST"
    and "boost_refcount (run_boosts env (reqs @ [t]) s) CONSERVATIVE_BOOST =
         boost_refcount (run_boosts env' (reqs' @ [t']) s') CONSERVATIVE_BOOST"
    and "boost_refcount (run_boosts env (reqs @ [t]) s) RESTRAINED_BOOST =
         boost_refcount (run_boosts env' (reqs' @ [t']) s') RESTRAINED_BOOST"
  shows "sched_boost_type (run_boosts env (reqs @ [t]) s) =
           aggregate (boost_refcount (run_boosts env (reqs @ [t]) s))
     \<and> sched_boost_type (run_boosts env (reqs @ [t]) s) =
         sched_boost_type (run_boosts env' (reqs' @ [t']) s')"
proof -
  have a: "sched_boost_type (run_boosts env (reqs @ [t]) s) =
      aggregate (boost_refcount (run_boosts env (reqs @ [t]) s))"
    unfolding run_boosts_snoc using assms(1) by (rule published_kind_legal)
  have b: "sched_boost_type (run_boosts env' (reqs' @ [t']) s') =
      aggregate (boost_refcount (run_boosts env' (reqs' @ [t']) s'))"
    unfolding run_boosts_snoc using assms(2) by (rule published_kind_legal)
  have "aggregate (boost_refcount (run_boosts env (reqs @ [t]) s)) =
      aggregate (boost_refcount (run_boosts env' (reqs' @ [t']) s'))"
    using assms(3-5) by (rule aggregate_cong)
  with a b show ?thesis by simp
qed

theorem published_kind_is_aggregate_witness:
  "FULL_THROTTLE_BOOST \<in> legal_requests \<and> CONSERVATIVE_BOOST \<in> legal_requests
   \<and> sched_boost_type
        (run_boosts env_homogeneous ([CONSERVATIVE_BOOST] @ [FULL_THROTTLE_BOOST]) boost_init) =
       FULL_THROTTLE_BOOST
   \<and> sched_boost_type
        (run_boosts env_homogeneous ([FULL_THROTTLE_BOOST] @ [CONSERVATIVE_BOOST]) boost_init) =
       FULL_THROTTLE_BOOST"
proof -
  let ?a = "run_boosts env_homogeneous ([CONSERVATIVE_BOOST] @ [FULL_THROTTLE_BOOST]) boost_init"
  let ?b = "run_boosts env_homogeneous ([FULL_THROTTLE_BOOST] @ [CONSERVATIVE_BOOST]) boost_init"
  have l1: "FULL_THROTTLE_BOOST \<in> legal_requests" and l2: "CONSERVATIVE_BOOST \<in> legal_requests"
    by (simp_all add: legal_requests_def)
  have r1: "boost_refcount ?a FULL_THROTTLE_BOOST = boost_refcount ?b FULL_THROTTLE_BOOST"
    by code_simp
  have r2: "boost_refcount ?a CONSERVATIVE_BOOST = boost_refcount ?b CONSERVATIVE_BOOST"
    by code_simp
  have r3: "boost_refcount ?a RESTRAINED_BOOST = boost_refcount ?b RESTRAINED_BOOST"
    by code_simp
  have agg: "aggregate (boost_refcount ?a) = FULL_THROTTLE_BOOST"
    by code_simp
  have k: "sched_boost_type ?a = aggregate (boost_refcount ?a)
      \<and> sched_boost_type ?a = sched_boost_type ?b"
    by (rule published_kind_is_aggregate [OF l1 l2 r1 r2 r3])
  from k agg have "sched_boost_type ?a = FULL_THROTTLE_BOOST"
    by (simp only:)
  moreover from k this have "sched_boost_type ?b = FULL_THROTTLE_BOOST"
    by (simp only:)
  ultimately show ?thesis
    using l1 l2 by (simp only: simp_thms)
qed

subsection \<open>The policy\<close>

text \<open>
  C2. For every kind, override and heterogeneity flag, \<open>set_boost_policy\<close> publishes the
  policy of the four-case rule: kind None or Restrained gives None; otherwise a set
  override gives the override; otherwise a heterogeneous processor set gives OnBig;
  otherwise OnAll. With the override OnBig and the kind FullThrottle the policy is OnBig
  on a homogeneous set too.
\<close>

theorem set_boost_policy_four_cases:
  "boost_policy (set_boost_policy env kind s) =
     derive_policy kind (boot_override s) (heterogeneous env)
   \<and> (boost_policy_dt s = SCHED_BOOST_ON_BIG \<and> kind = FULL_THROTTLE_BOOST
        \<and> \<not> heterogeneous env
      \<longrightarrow> boost_policy (set_boost_policy env kind s) = SCHED_BOOST_ON_BIG)"
  by (simp add: set_boost_policy_derive)
    (simp add: derive_policy_def boot_override_def boost_codes)

theorem set_boost_policy_four_cases_witness:
  "boost_policy_dt (boost_init\<lparr>boost_policy_dt := SCHED_BOOST_ON_BIG\<rparr>) = SCHED_BOOST_ON_BIG
   \<and> \<not> heterogeneous env_homogeneous
   \<and> boost_policy (set_boost_policy env_homogeneous FULL_THROTTLE_BOOST
        (boost_init\<lparr>boost_policy_dt := SCHED_BOOST_ON_BIG\<rparr>)) = SCHED_BOOST_ON_BIG"
proof -
  let ?s = "boost_init\<lparr>boost_policy_dt := SCHED_BOOST_ON_BIG\<rparr>"
  have h: "boost_policy_dt ?s = SCHED_BOOST_ON_BIG \<and> FULL_THROTTLE_BOOST = FULL_THROTTLE_BOOST
      \<and> \<not> heterogeneous env_homogeneous"
    by (simp add: heterogeneous_def env_homogeneous_def)
  from set_boost_policy_four_cases [of env_homogeneous FULL_THROTTLE_BOOST ?s] h
  show ?thesis by blast
qed

text \<open>
  C10. After every legal request the published policy is the policy of the rule for the
  kind that this request has just aggregated from the refcounts and published. So the
  policy is None exactly when the published kind is None or Restrained, and the published
  pair always comes from one and the same transition.
\<close>

theorem published_policy_consistent:
  assumes "type \<in> legal_requests"
  shows "sched_boost_type (fst (sched_set_boost env type s)) =
           aggregate (boost_refcount (fst (sched_set_boost env type s)))
     \<and> boost_policy (fst (sched_set_boost env type s)) =
         derive_policy (sched_boost_type (fst (sched_set_boost env type s)))
           (boot_override s) (heterogeneous env)
     \<and> (boost_policy (fst (sched_set_boost env type s)) = SCHED_BOOST_NONE \<longleftrightarrow>
          sched_boost_type (fst (sched_set_boost env type s)) = NO_BOOST
          \<or> sched_boost_type (fst (sched_set_boost env type s)) = RESTRAINED_BOOST)"
proof -
  obtain s1 where s1: "u_sched_set_boost env type s = publish env s1"
    and dt: "boost_policy_dt s1 = boost_policy_dt s"
    using assms by (rule legal_requestsE)
  have ov: "boot_override s1 = boot_override s"
    by (simp add: boot_override_def dt)
  have none_iff: "derive_policy k (boot_override s) h = SCHED_BOOST_NONE \<longleftrightarrow>
      k = NO_BOOST \<or> k = RESTRAINED_BOOST" for k h
    by (simp add: derive_policy_def boot_override_def)
  show ?thesis
    by (simp add: sched_set_boost_legal [OF assms] s1 ov none_iff)
qed

theorem published_policy_consistent_witness:
  "CONSERVATIVE_BOOST \<in> legal_requests
   \<and> sched_boost_type (fst (sched_set_boost env_homogeneous CONSERVATIVE_BOOST boost_init)) =
       CONSERVATIVE_BOOST
   \<and> boost_policy (fst (sched_set_boost env_homogeneous CONSERVATIVE_BOOST boost_init)) =
       SCHED_BOOST_ON_ALL"
proof -
  let ?s = "fst (sched_set_boost env_homogeneous CONSERVATIVE_BOOST boost_init)"
  have l: "CONSERVATIVE_BOOST \<in> legal_requests"
    by (simp add: legal_requests_def)
  have agg: "aggregate (boost_refcount ?s) = CONSERVATIVE_BOOST"
    by code_simp
  have pol: "derive_policy CONSERVATIVE_BOOST (boot_override boost_init)
      (heterogeneous env_homogeneous) = SCHED_BOOST_ON_ALL"
    by code_simp
  from published_policy_consistent [OF l, of env_homogeneous boost_init] agg pol l
  show ?thesis by simp
qed

subsection \<open>A scenario: Restrained and FullThrottle overlap\<close>

text \<open>
  C4. From the clean state after boot, the requests enable Restrained, enable FullThrottle,
  disable FullThrottle, disable Restrained call the hooks as follows. The Restrained
  enable fires \<open>walt_enable_frequency_aggregation(true)\<close>, once. The FullThrottle enable
  fires \<open>core_ctl_set_boost(true)\<close> and \<open>restore_cgroup_boost_settings()\<close> and does not
  fire the frequency aggregation again. The FullThrottle disable fires
  \<open>core_ctl_set_boost(false)\<close> and no \<open>walt_enable_frequency_aggregation(false)\<close>,
  Restrained still holding it. The Restrained disable fires
  \<open>walt_enable_frequency_aggregation(false)\<close>, once. Each request ends with the
  tracepoint of the kind it published.
\<close>

theorem restrained_full_throttle_scenario:
  "calls (run_boosts env [RESTRAINED_BOOST] (boot dt)) =
     [walt_enable_frequency_aggregation True, trace_sched_set_boost RESTRAINED_BOOST]
   \<and> calls (run_boosts env [RESTRAINED_BOOST, FULL_THROTTLE_BOOST] (boot dt)) =
       calls (run_boosts env [RESTRAINED_BOOST] (boot dt)) @
       [core_ctl_set_boost True, restore_cgroup_boost_settings,
        trace_sched_set_boost FULL_THROTTLE_BOOST]
   \<and> calls (run_boosts env
        [RESTRAINED_BOOST, FULL_THROTTLE_BOOST, FULL_THROTTLE_BOOST_DISABLE] (boot dt)) =
       calls (run_boosts env [RESTRAINED_BOOST, FULL_THROTTLE_BOOST] (boot dt)) @
       [core_ctl_set_boost False, trace_sched_set_boost RESTRAINED_BOOST]
   \<and> calls (run_boosts env
        [RESTRAINED_BOOST, FULL_THROTTLE_BOOST, FULL_THROTTLE_BOOST_DISABLE,
         RESTRAINED_BOOST_DISABLE] (boot dt)) =
       calls (run_boosts env
        [RESTRAINED_BOOST, FULL_THROTTLE_BOOST, FULL_THROTTLE_BOOST_DISABLE] (boot dt)) @
       [walt_enable_frequency_aggregation False, trace_sched_set_boost NO_BOOST]"
  by (simp add: sched_set_boost_def verify_boost_params_iff legal_requests_def
      u_sched_set_boost_simps case_defs Let_def)
    (simp add: aggregate_def boost_codes word_sless_alt word_sle_eq)

subsection \<open>Illegal request codes\<close>

text \<open>
  C8. For a request code outside the seven legal values \<open>sched_set_boost\<close> returns
  \<open>-EINVAL\<close> (the kernel's encoding of the error \<open>EINVAL\<close>, not 0) and hands back the
  globals as they were: no refcount, no published value and no entry of the call log
  changes, so no hook fires. For each of the seven legal values it returns 0.
\<close>

theorem sched_set_boost_return:
  "(type \<notin> legal_requests \<longrightarrow> sched_set_boost env type s = (s, - EINVAL))
   \<and> (type \<in> legal_requests \<longrightarrow> snd (sched_set_boost env type s) = 0)
   \<and> - EINVAL \<noteq> 0"
  by (simp add: sched_set_boost_legal sched_set_boost_illegal EINVAL_def)

theorem sched_set_boost_return_witness:
  "(4 :: c_int) \<notin> legal_requests
   \<and> sched_set_boost env_homogeneous 4 boost_init = (boost_init, - EINVAL)
   \<and> FULL_THROTTLE_BOOST \<in> legal_requests
   \<and> snd (sched_set_boost env_homogeneous FULL_THROTTLE_BOOST boost_init) = 0"
  using sched_set_boost_return [of 4 env_homogeneous boost_init]
    sched_set_boost_return [of FULL_THROTTLE_BOOST env_homogeneous boost_init]
  by (simp add: legal_requests_def boost_codes)

subsection \<open>The clear-all request\<close>

lemma case_NO_BOOST_refcount:
  "boost_refcount (case_NO_BOOST s) k =
     (if (k = FULL_THROTTLE_BOOST \<or> k = CONSERVATIVE_BOOST \<or> k = RESTRAINED_BOOST)
         \<and> 0 <s boost_refcount s k then 0 else boost_refcount s k)"
  by (simp add: case_NO_BOOST_def Let_def boost_codes)

lemma not_zero_sless_zero [simp]: "\<not> 0 <s (0 :: c_int)"
  by (simp add: word_sless_alt)

lemma case_NO_BOOST_aggregate: "aggregate (boost_refcount (case_NO_BOOST s)) = NO_BOOST"
  by (simp add: aggregate_def case_NO_BOOST_refcount)

lemma case_NO_BOOST_calls:
  "calls (case_NO_BOOST s) = calls s
     @ (if 0 <s boost_refcount s FULL_THROTTLE_BOOST
        then [core_ctl_set_boost False, walt_enable_frequency_aggregation False] else [])
     @ (if 0 <s boost_refcount s CONSERVATIVE_BOOST then [restore_cgroup_boost_settings] else [])
     @ (if 0 <s boost_refcount s RESTRAINED_BOOST
        then [walt_enable_frequency_aggregation False] else [])"
  by (simp add: case_NO_BOOST_def Let_def boost_codes)

lemma NO_BOOST_legal: "NO_BOOST \<in> legal_requests"
  by (simp add: legal_requests_def)

text \<open>
  C3, as the code has it. The request \<open>NO_BOOST\<close> fires, in this order: if the
  FullThrottle refcount is above 0, \<open>core_ctl_set_boost(false)\<close> and
  \<open>walt_enable_frequency_aggregation(false)\<close>, the latter whatever the Restrained
  refcount, and no \<open>update_cgroup_boost_settings()\<close>; if the Conservative refcount is
  above 0, \<open>restore_cgroup_boost_settings()\<close>; if the Restrained refcount is above 0,
  \<open>walt_enable_frequency_aggregation(false)\<close>; then the tracepoint with \<open>NO_BOOST\<close>.
  Nothing else is called.
\<close>

theorem clear_all_fires:
  "fired env NO_BOOST s =
     (if 0 <s boost_refcount s FULL_THROTTLE_BOOST
      then [core_ctl_set_boost False, walt_enable_frequency_aggregation False] else [])
     @ (if 0 <s boost_refcount s CONSERVATIVE_BOOST then [restore_cgroup_boost_settings] else [])
     @ (if 0 <s boost_refcount s RESTRAINED_BOOST
        then [walt_enable_frequency_aggregation False] else [])
     @ [trace_sched_set_boost NO_BOOST]"
  by (simp add: fired_def sched_set_boost_legal [OF NO_BOOST_legal] u_sched_set_boost_simps
      case_NO_BOOST_calls case_NO_BOOST_aggregate)

text \<open>
  C3 as the claim words it fails after enable FullThrottle, enable Conservative: the
  refcounts are 1, 1 and 0, the claim asks the clear-all request for
  \<open>update_cgroup_boost_settings()\<close> among the effects of FullThrottle, and the code calls
  the two disable hooks and \<open>restore_cgroup_boost_settings()\<close> only.
\<close>

theorem clear_all_effects_counterexample:
  "boost_refcount (run_boosts env_homogeneous [FULL_THROTTLE_BOOST, CONSERVATIVE_BOOST] boost_init)
     FULL_THROTTLE_BOOST = 1
   \<and> boost_refcount (run_boosts env_homogeneous [FULL_THROTTLE_BOOST, CONSERVATIVE_BOOST] boost_init)
     CONSERVATIVE_BOOST = 1
   \<and> boost_refcount (run_boosts env_homogeneous [FULL_THROTTLE_BOOST, CONSERVATIVE_BOOST] boost_init)
     RESTRAINED_BOOST = 0
   \<and> clear_all_effects
       (boost_refcount
         (run_boosts env_homogeneous [FULL_THROTTLE_BOOST, CONSERVATIVE_BOOST] boost_init)) =
       [core_ctl_set_boost False, update_cgroup_boost_settings,
        walt_enable_frequency_aggregation False, restore_cgroup_boost_settings]
   \<and> filter downstream
       (fired env_homogeneous NO_BOOST
         (run_boosts env_homogeneous [FULL_THROTTLE_BOOST, CONSERVATIVE_BOOST] boost_init)) =
       [core_ctl_set_boost False, walt_enable_frequency_aggregation False,
        restore_cgroup_boost_settings]
   \<and> filter downstream
       (fired env_homogeneous NO_BOOST
         (run_boosts env_homogeneous [FULL_THROTTLE_BOOST, CONSERVATIVE_BOOST] boost_init)) \<noteq>
     clear_all_effects
       (boost_refcount
         (run_boosts env_homogeneous [FULL_THROTTLE_BOOST, CONSERVATIVE_BOOST] boost_init))"
  by code_simp

subsection \<open>The control-surface endpoint\<close>

lemma handler_read:
  "sched_boost_handler env table False buffer s = (s, 0, Some (sysctl_sched_boost s))"
  by (simp add: sched_boost_handler_def proc_dointvec_minmax_def)

lemma handler_write_legal:
  assumes "v \<in> legal_requests" and "extra1 table \<le>s v" and "v \<le>s extra2 table"
  shows "sched_boost_handler env table True v s =
           (u_sched_set_boost env v (s\<lparr>sysctl_sched_boost := v\<rparr>), 0, None)"
  using assms
  by (simp add: sched_boost_handler_def proc_dointvec_minmax_def verify_boost_params_iff)

text \<open>
  No case of the switch reads \<open>sysctl_sched_boost\<close>, and the aggregation overwrites it.
\<close>

lemma publish_raw_value:
  assumes "s1' = s1\<lparr>sysctl_sched_boost := v\<rparr>"
  shows "publish env s1' = publish env s1"
proof -
  have "aggregate_final_boost_type s1' = aggregate_final_boost_type s1"
    using assms by (simp add: aggregate_final_boost_type_def)
  then show ?thesis
    using assms by (simp add: publish_def Let_def set_boost_policy_def call_def)
qed

lemma case_raw_value:
  "case_NO_BOOST (s\<lparr>sysctl_sched_boost := v\<rparr>) = (case_NO_BOOST s)\<lparr>sysctl_sched_boost := v\<rparr>"
  "case_FULL_THROTTLE_BOOST (s\<lparr>sysctl_sched_boost := v\<rparr>) =
     (case_FULL_THROTTLE_BOOST s)\<lparr>sysctl_sched_boost := v\<rparr>"
  "case_CONSERVATIVE_BOOST (s\<lparr>sysctl_sched_boost := v\<rparr>) =
     (case_CONSERVATIVE_BOOST s)\<lparr>sysctl_sched_boost := v\<rparr>"
  "case_RESTRAINED_BOOST (s\<lparr>sysctl_sched_boost := v\<rparr>) =
     (case_RESTRAINED_BOOST s)\<lparr>sysctl_sched_boost := v\<rparr>"
  "case_FULL_THROTTLE_BOOST_DISABLE (s\<lparr>sysctl_sched_boost := v\<rparr>) =
     (case_FULL_THROTTLE_BOOST_DISABLE s)\<lparr>sysctl_sched_boost := v\<rparr>"
  "case_CONSERVATIVE_BOOST_DISABLE (s\<lparr>sysctl_sched_boost := v\<rparr>) =
     (case_CONSERVATIVE_BOOST_DISABLE s)\<lparr>sysctl_sched_boost := v\<rparr>"
  "case_RESTRAINED_BOOST_DISABLE (s\<lparr>sysctl_sched_boost := v\<rparr>) =
     (case_RESTRAINED_BOOST_DISABLE s)\<lparr>sysctl_sched_boost := v\<rparr>"
  by (simp_all add: case_defs Let_def call_def set_refcount_def)

lemma u_sched_set_boost_raw_value:
  assumes "type \<in> legal_requests"
  shows "u_sched_set_boost env type (s\<lparr>sysctl_sched_boost := v\<rparr>) = u_sched_set_boost env type s"
proof -
  from assms consider "type = NO_BOOST" | "type = FULL_THROTTLE_BOOST"
    | "type = CONSERVATIVE_BOOST" | "type = RESTRAINED_BOOST"
    | "type = FULL_THROTTLE_BOOST_DISABLE" | "type = CONSERVATIVE_BOOST_DISABLE"
    | "type = RESTRAINED_BOOST_DISABLE"
    by (auto simp: legal_requests_def)
  then show ?thesis
    by cases (simp_all add: u_sched_set_boost_simps case_raw_value publish_raw_value)
qed

lemma boost_ctl_table_bounds:
  "extra1 boost_ctl_table \<le>s v \<and> v \<le>s extra2 boost_ctl_table \<longleftrightarrow> v \<in> legal_requests"
  by (simp add: boost_ctl_table_def verify_boost_params_iff [symmetric] verify_boost_params_def)

text \<open>
  The endpoint reaches no state of its own: with the bounds of the table a write leaves
  the globals as the direct request of the same code leaves them, and a read leaves them
  as they are.
\<close>

lemma handler_as_set_boost:
  "fst (sched_boost_handler env boost_ctl_table write v s) =
     (if write then fst (sched_set_boost env v s) else s)"
proof (cases "write \<and> v \<in> legal_requests")
  case True
  then show ?thesis
    using boost_ctl_table_bounds [of v]
    by (simp add: handler_write_legal sched_set_boost_legal u_sched_set_boost_raw_value)
next
  case False
  then show ?thesis
    using boost_ctl_table_bounds [of v]
    by (auto simp: sched_boost_handler_def proc_dointvec_minmax_def sched_set_boost_illegal EINVAL_def)
qed

text \<open>
  C9, as the code has it. A legal request code that the endpoint's bounds accept is
  written with return value 0; a read after it returns the kind that the write
  aggregated and published, the value of \<open>sched_boost_type\<close>, and leaves the globals as
  they are. \<open>sysctl_sched_boost\<close> is a duplicate of the published kind, not of the
  code that was written.
\<close>

theorem handler_read_after_write:
  assumes "v \<in> legal_requests" and "extra1 table \<le>s v" and "v \<le>s extra2 table"
  shows "fst (snd (sched_boost_handler env table True v s)) = 0
     \<and> sched_boost_handler env table False buffer
         (fst (sched_boost_handler env table True v s)) =
         (fst (sched_boost_handler env table True v s), 0,
          Some (sched_boost_type (fst (sched_boost_handler env table True v s))))
     \<and> sysctl_sched_boost (fst (sched_boost_handler env table True v s)) =
         sched_boost_type (fst (sched_boost_handler env table True v s))
     \<and> sched_boost_type (fst (sched_boost_handler env table True v s)) =
         aggregate (boost_refcount (fst (sched_boost_handler env table True v s)))"
proof -
  obtain s1 where s1: "u_sched_set_boost env v (s\<lparr>sysctl_sched_boost := v\<rparr>) = publish env s1"
    using assms(1) by (rule legal_requestsE)
  show ?thesis
    by (simp add: handler_write_legal [OF assms] handler_read s1)
qed

theorem handler_read_after_write_witness:
  "RESTRAINED_BOOST \<in> legal_requests
   \<and> extra1 boost_ctl_table \<le>s RESTRAINED_BOOST \<and> RESTRAINED_BOOST \<le>s extra2 boost_ctl_table
   \<and> snd (snd (sched_boost_handler env_homogeneous boost_ctl_table False 0
        (fst (sched_boost_handler env_homogeneous boost_ctl_table True RESTRAINED_BOOST
           boost_init)))) = Some RESTRAINED_BOOST"
proof -
  let ?s = "fst (sched_boost_handler env_homogeneous boost_ctl_table True RESTRAINED_BOOST boost_init)"
  have l: "RESTRAINED_BOOST \<in> legal_requests"
    by (simp add: legal_requests_def)
  have lo: "extra1 boost_ctl_table \<le>s RESTRAINED_BOOST"
    and hi: "RESTRAINED_BOOST \<le>s extra2 boost_ctl_table"
    by code_simp+
  have k: "sched_boost_type ?s = RESTRAINED_BOOST"
    by code_simp
  from handler_read_after_write [where env = env_homogeneous and buffer = 0 and s = boost_init,
      OF l lo hi]
  have "sched_boost_handler env_homogeneous boost_ctl_table False 0 ?s =
      (?s, 0, Some (sched_boost_type ?s))"
    by (simp only:)
  then have "snd (snd (sched_boost_handler env_homogeneous boost_ctl_table False 0 ?s)) =
      Some RESTRAINED_BOOST"
    by (simp only: snd_conv k)
  with l lo hi show ?thesis
    by (simp only: simp_thms)
qed

text \<open>
  C9 as the claim words it fails when FullThrottle is held and Restrained is written: the
  write returns 0, the read after it returns FullThrottle, and so does
  \<open>sysctl_sched_boost\<close>.
\<close>

theorem handler_raw_value_counterexample:
  "fst (snd (sched_boost_handler env_homogeneous boost_ctl_table True RESTRAINED_BOOST
      (fst (sched_boost_handler env_homogeneous boost_ctl_table True FULL_THROTTLE_BOOST
         boost_init)))) = 0
   \<and> snd (snd (sched_boost_handler env_homogeneous boost_ctl_table False 0
      (fst (sched_boost_handler env_homogeneous boost_ctl_table True RESTRAINED_BOOST
         (fst (sched_boost_handler env_homogeneous boost_ctl_table True FULL_THROTTLE_BOOST
            boost_init)))))) = Some FULL_THROTTLE_BOOST
   \<and> sysctl_sched_boost
       (fst (sched_boost_handler env_homogeneous boost_ctl_table True RESTRAINED_BOOST
         (fst (sched_boost_handler env_homogeneous boost_ctl_table True FULL_THROTTLE_BOOST
            boost_init)))) = FULL_THROTTLE_BOOST
   \<and> FULL_THROTTLE_BOOST \<noteq> RESTRAINED_BOOST"
  by code_simp

subsection \<open>Refcounts and the range of int\<close>

text \<open>
  A refcount is an \<open>int\<close>. An enable adds one without a check, so the count follows
  the number of enables only while it stays below \<open>INT_MAX\<close>; the enable after that
  wraps to \<open>INT_MIN\<close>.
\<close>

lemma sint_inc:
  fixes x :: c_int
  assumes "sint x < 2147483647"
  shows "sint (x + 1) = sint x + 1"
proof -
  have "- 2147483648 \<le> sint x" using sint_ge [of x] by simp
  with assms show ?thesis
    by (simp add: sint_word_add signed_take_bit_int_eq_self)
qed

lemma sint_dec:
  fixes x :: c_int
  assumes "- 2147483648 < sint x"
  shows "sint (x - 1) = sint x - 1"
proof -
  have "sint x < 2147483648" using sint_lt [of x] by simp
  with assms show ?thesis
    by (simp add: sint_word_diff signed_take_bit_int_eq_self)
qed

lemma enable_refcount:
  assumes "(k, d) \<in> boost_kinds"
  shows "boost_refcount (fst (sched_set_boost env k s)) =
           (boost_refcount s)(k := boost_refcount s k + 1)"
  using assms
  by (auto simp: boost_kinds_def sched_set_boost_legal legal_requests_def
      u_sched_set_boost_simps case_defs Let_def)

lemma disable_refcount:
  assumes "(k, d) \<in> boost_kinds"
  shows "boost_refcount (fst (sched_set_boost env d s)) =
           (if 1 \<le>s boost_refcount s k then (boost_refcount s)(k := boost_refcount s k - 1)
            else boost_refcount s)"
  using assms
  by (auto simp: boost_kinds_def sched_set_boost_legal legal_requests_def
      u_sched_set_boost_simps case_defs Let_def)

lemma boost_kinds_legal:
  assumes "(k, d) \<in> boost_kinds"
  shows "k \<in> legal_requests" and "d \<in> legal_requests"
  using assms by (auto simp: boost_kinds_def legal_requests_def)

lemma legal_requests_cases:
  assumes "t \<in> legal_requests"
  obtains "t = NO_BOOST" | d where "(t, d) \<in> boost_kinds" | k where "(k, t) \<in> boost_kinds"
  using assms by (auto simp: boost_kinds_def legal_requests_def)

lemma boost_kinds_distinct:
  assumes "(k, d) \<in> boost_kinds" and "(k', d') \<in> boost_kinds"
  shows "k \<noteq> d'" and "k \<noteq> NO_BOOST" and "d \<noteq> NO_BOOST" and "d = d' \<longleftrightarrow> k = k'"
  using assms by (auto simp: boost_kinds_def boost_codes)

lemma clear_refcount:
  "boost_refcount (fst (sched_set_boost env NO_BOOST s)) =
     boost_refcount (case_NO_BOOST s)"
  by (simp add: sched_set_boost_legal [OF NO_BOOST_legal] u_sched_set_boost_simps)

lemma step_bounds:
  assumes k: "(k, d) \<in> boost_kinds"
    and nonneg: "0 \<le> sint (boost_refcount s k)"
    and room: "t = k \<Longrightarrow> sint (boost_refcount s k) < 2147483647"
  shows "0 \<le> sint (boost_refcount (fst (sched_set_boost env t s)) k)
     \<and> sint (boost_refcount (fst (sched_set_boost env t s)) k)
         \<le> sint (boost_refcount s k) + (if t = k then 1 else 0)"
proof (cases "t \<in> legal_requests")
  case False
  with nonneg show ?thesis
    using boost_kinds_legal(1) [OF k] by (auto simp: sched_set_boost_illegal)
next
  case True
  then show ?thesis
  proof (cases rule: legal_requests_cases)
    case 1
    with nonneg show ?thesis
      using boost_kinds_distinct(2) [OF k k]
      by (simp add: clear_refcount case_NO_BOOST_refcount)
  next
    case (2 d')
    show ?thesis
    proof (cases "t = k")
      case True
      with nonneg room show ?thesis
        by (simp add: enable_refcount [OF k] sint_inc)
    next
      case False
      with nonneg show ?thesis
        by (simp add: enable_refcount [OF 2])
    qed
  next
    case (3 k')
    have tk: "t \<noteq> k"
      using boost_kinds_distinct(1) [OF k 3] by simp
    show ?thesis
    proof (cases "k' = k")
      case True
      with nonneg tk show ?thesis
        by (simp add: disable_refcount [OF 3] sint_dec word_sle_eq)
    next
      case False
      with nonneg tk show ?thesis
        by (simp add: disable_refcount [OF 3])
    qed
  qed
qed

lemma enable_n:
  assumes k: "(k, d) \<in> boost_kinds"
  shows "boost_refcount (run_boosts env (replicate n k) s) =
           (boost_refcount s)(k := boost_refcount s k + of_nat n)"
proof (induction n arbitrary: s)
  case 0
  then show ?case by simp
next
  case (Suc n)
  show ?case
    by (rule ext) (simp add: Suc.IH enable_refcount [OF k] ac_simps)
qed

lemma disable_n:
  assumes k: "(k, d) \<in> boost_kinds"
  shows "int n \<le> sint (boost_refcount s k) \<Longrightarrow>
     boost_refcount (run_boosts env (replicate n d) s) =
       (boost_refcount s)(k := boost_refcount s k - of_nat n)"
proof (induction n arbitrary: s)
  case 0
  then show ?case by simp
next
  case (Suc n)
  let ?s1 = "fst (sched_set_boost env d s)"
  have pos: "1 \<le>s boost_refcount s k"
    using Suc.prems by (simp add: word_sle_eq)
  then have s1: "boost_refcount ?s1 = (boost_refcount s)(k := boost_refcount s k - 1)"
    by (simp add: disable_refcount [OF k])
  have "sint (boost_refcount s k - 1) = sint (boost_refcount s k) - 1"
    using Suc.prems by (intro sint_dec) simp
  then have "int n \<le> sint (boost_refcount ?s1 k)"
    using Suc.prems by (simp add: s1)
  from Suc.IH [OF this] show ?case
    by (intro ext) (simp add: s1 diff_diff_eq)
qed

lemma disable_n_noop:
  assumes k: "(k, d) \<in> boost_kinds"
  shows "\<not> 1 \<le>s boost_refcount s k \<Longrightarrow>
     boost_refcount (run_boosts env (replicate n d) s) = boost_refcount s"
proof (induction n arbitrary: s)
  case 0
  then show ?case by simp
next
  case (Suc n)
  have "boost_refcount (fst (sched_set_boost env d s)) = boost_refcount s"
    using Suc.prems by (simp add: disable_refcount [OF k])
  with Suc.IH [of "fst (sched_set_boost env d s)"] Suc.prems show ?case
    by simp
qed

lemma sint_add_nat:
  fixes x :: c_int
  assumes "0 \<le> sint x" and "sint x + int n < 2147483648"
  shows "sint (x + of_nat n) = sint x + int n"
  using assms
proof (induction n)
  case 0
  then show ?case by simp
next
  case (Suc n)
  then have ih: "sint (x + of_nat n) = sint x + int n" by simp
  have "sint (x + of_nat n + 1) = sint (x + of_nat n) + 1"
    using Suc.prems ih by (intro sint_inc) simp
  with ih show ?case by (simp add: ac_simps)
qed

lemma int_min_word: "sint (word_of_nat (2 ^ 31) :: c_int) = - 2147483648"
  by simp

lemma full_throttle_kind: "(FULL_THROTTLE_BOOST, FULL_THROTTLE_BOOST_DISABLE) \<in> boost_kinds"
  by (simp add: boost_kinds_def)

lemma wrapped_refcount:
  "boost_refcount (run_boosts env (replicate (2 ^ 31) FULL_THROTTLE_BOOST) boost_init)
     FULL_THROTTLE_BOOST = word_of_nat (2 ^ 31)"
  by (simp add: enable_n [OF full_throttle_kind] boost_init_def)

lemma sint_below_INT_MAX:
  fixes x :: c_int
  assumes "x \<noteq> INT_MAX"
  shows "sint x < 2147483647"
proof -
  have "sint x < 2147483648" using sint_lt [of x] by simp
  moreover have "sint x \<noteq> 2147483647"
  proof
    assume "sint x = 2147483647"
    then have "word_of_int (sint x) = (word_of_int 2147483647 :: c_int)" by simp
    then have "x = INT_MAX" by (simp add: INT_MAX_def)
    with assms show False by simp
  qed
  ultimately show ?thesis by arith
qed

lemma run_nonneg:
  assumes k: "(k, d) \<in> boost_kinds"
  shows "0 \<le> sint (boost_refcount s k) \<Longrightarrow> enables_below_INT_MAX env k reqs s \<Longrightarrow>
     0 \<le> sint (boost_refcount (run_boosts env reqs s) k)"
proof (induction reqs arbitrary: s)
  case Nil
  then show ?case by simp
next
  case (Cons t reqs)
  let ?s1 = "fst (sched_set_boost env t s)"
  have room: "t = k \<Longrightarrow> sint (boost_refcount s k) < 2147483647"
    using Cons.prems(2) by (simp add: sint_below_INT_MAX)
  from step_bounds [where env = env and t = t, OF k Cons.prems(1) room]
  have s1: "0 \<le> sint (boost_refcount ?s1 k)"
    by simp
  have "enables_below_INT_MAX env k reqs ?s1"
    using Cons.prems(2) by simp
  from Cons.IH [OF s1 this] show ?case
    by simp
qed

lemma enables_below_INT_MAX_take:
  "enables_below_INT_MAX env k reqs s \<Longrightarrow> enables_below_INT_MAX env k (take n reqs) s"
proof (induction reqs arbitrary: n s)
  case Nil
  then show ?case by simp
next
  case (Cons t reqs)
  then show ?case
    by (cases n) simp_all
qed

text \<open>
  The hypothesis leaves the long sequences in: enable and disable in turn, any number of
  times, never enables at \<open>INT_MAX\<close>.
\<close>

lemma enable_disable_pairs_below_INT_MAX:
  assumes k: "(k, d) \<in> boost_kinds"
  shows "boost_refcount s k = 0 \<Longrightarrow>
     enables_below_INT_MAX env k (concat (replicate m [k, d])) s"
proof (induction m arbitrary: s)
  case 0
  then show ?case by simp
next
  case (Suc m)
  let ?s1 = "fst (sched_set_boost env k s)"
  let ?s2 = "fst (sched_set_boost env d ?s1)"
  have kd: "d \<noteq> k"
    using boost_kinds_distinct(1) [OF k k] by simp
  have s1: "boost_refcount ?s1 k = 1"
    using Suc.prems by (simp add: enable_refcount [OF k])
  have "boost_refcount ?s2 k = 0"
    by (simp add: disable_refcount [OF k] s1 word_sle_eq)
  from Suc.IH [OF this] Suc.prems kd show ?case
    by (simp add: INT_MAX_def)
qed

text \<open>
  C6, as the code has it. From the state after boot, for every sequence of requests in
  which no enable request of a kind comes while the refcount of that kind is \<open>INT_MAX\<close>,
  the refcount of that kind is at least 0 after each request of the sequence. In every
  state, a disable request of a kind whose refcount is zero leaves the refcount at zero.
\<close>

theorem refcount_never_negative:
  assumes "(k, d) \<in> boost_kinds" and "enables_below_INT_MAX env k reqs (boot dt)"
  shows "0 \<le>s boost_refcount (run_boosts env (take n reqs) (boot dt)) k
     \<and> (boost_refcount s k = 0 \<longrightarrow> boost_refcount (fst (sched_set_boost env d s)) k = 0)"
proof -
  have prefix: "enables_below_INT_MAX env k (take n reqs) (boot dt)"
    using assms(2) by (rule enables_below_INT_MAX_take)
  have zero: "0 \<le> sint (boost_refcount (boot dt) k)"
    by simp
  from run_nonneg [OF assms(1) zero prefix]
  have "0 \<le>s boost_refcount (run_boosts env (take n reqs) (boot dt)) k"
    by (simp add: word_sle_eq)
  moreover have "boost_refcount (fst (sched_set_boost env d s)) k = 0"
    if "boost_refcount s k = 0"
    using that by (simp add: disable_refcount [OF assms(1)] word_sle_eq)
  ultimately show ?thesis by simp
qed

theorem refcount_never_negative_witness:
  "(FULL_THROTTLE_BOOST, FULL_THROTTLE_BOOST_DISABLE) \<in> boost_kinds
   \<and> enables_below_INT_MAX env_homogeneous FULL_THROTTLE_BOOST
        [FULL_THROTTLE_BOOST, FULL_THROTTLE_BOOST_DISABLE, FULL_THROTTLE_BOOST,
         FULL_THROTTLE_BOOST_DISABLE, FULL_THROTTLE_BOOST_DISABLE] (boot Map.empty)
   \<and> 0 \<le>s boost_refcount
        (run_boosts env_homogeneous
          (take 5 [FULL_THROTTLE_BOOST, FULL_THROTTLE_BOOST_DISABLE, FULL_THROTTLE_BOOST,
             FULL_THROTTLE_BOOST_DISABLE, FULL_THROTTLE_BOOST_DISABLE])
          (boot Map.empty))
        FULL_THROTTLE_BOOST
   \<and> boost_refcount boost_init FULL_THROTTLE_BOOST = 0
   \<and> boost_refcount (fst (sched_set_boost env_homogeneous FULL_THROTTLE_BOOST_DISABLE boost_init))
        FULL_THROTTLE_BOOST = 0"
proof -
  let ?reqs = "[FULL_THROTTLE_BOOST, FULL_THROTTLE_BOOST_DISABLE, FULL_THROTTLE_BOOST,
    FULL_THROTTLE_BOOST_DISABLE, FULL_THROTTLE_BOOST_DISABLE]"
  have k: "(FULL_THROTTLE_BOOST, FULL_THROTTLE_BOOST_DISABLE) \<in> boost_kinds"
    by (rule full_throttle_kind)
  have n: "enables_below_INT_MAX env_homogeneous FULL_THROTTLE_BOOST ?reqs (boot Map.empty)"
    by code_simp
  have z: "boost_refcount boost_init FULL_THROTTLE_BOOST = 0"
    by (simp add: boost_init_def)
  from refcount_never_negative
    [where env = env_homogeneous and n = 5 and dt = Map.empty and s = boost_init, OF k n] z k n
  show ?thesis by (simp only: simp_thms)
qed

text \<open>
  C6 as the claim words it, for every sequence, fails after \<open>2^31\<close> enable requests of
  FullThrottle from the initial state: the refcount has wrapped and is negative.
\<close>

theorem refcount_never_negative_counterexample:
  "boost_refcount
     (run_boosts env_homogeneous (replicate (2 ^ 31) FULL_THROTTLE_BOOST) boost_init)
     FULL_THROTTLE_BOOST <s 0"
  unfolding wrapped_refcount word_sless_alt by simp

subsection \<open>The result of the clear-all request\<close>

lemma sle_not_sless_zero:
  fixes x :: c_int
  assumes "0 \<le>s x" and "\<not> 0 <s x"
  shows "x = 0"
  using assms by (simp add: word_sless_eq)

text \<open>
  C5, as the code has it. For every prior state, after the request \<open>NO_BOOST\<close> the
  published kind is None and the published policy is None, and each of the three
  refcounts that was at least 0 before the request is 0. The code resets a refcount under
  the test \<open>> 0\<close>, so a refcount that has wrapped below 0 stays as it is.
\<close>

theorem clear_all_result:
  "sched_boost_type (fst (sched_set_boost env NO_BOOST s)) = NO_BOOST
   \<and> boost_policy (fst (sched_set_boost env NO_BOOST s)) = SCHED_BOOST_NONE
   \<and> (0 \<le>s boost_refcount s FULL_THROTTLE_BOOST \<longrightarrow>
        boost_refcount (fst (sched_set_boost env NO_BOOST s)) FULL_THROTTLE_BOOST = 0)
   \<and> (0 \<le>s boost_refcount s CONSERVATIVE_BOOST \<longrightarrow>
        boost_refcount (fst (sched_set_boost env NO_BOOST s)) CONSERVATIVE_BOOST = 0)
   \<and> (0 \<le>s boost_refcount s RESTRAINED_BOOST \<longrightarrow>
        boost_refcount (fst (sched_set_boost env NO_BOOST s)) RESTRAINED_BOOST = 0)"
proof -
  have s': "fst (sched_set_boost env NO_BOOST s) = publish env (case_NO_BOOST s)"
    by (simp add: sched_set_boost_legal [OF NO_BOOST_legal] u_sched_set_boost_simps)
  have kind: "sched_boost_type (publish env (case_NO_BOOST s)) = NO_BOOST"
    by (simp add: case_NO_BOOST_aggregate)
  have policy: "boost_policy (publish env (case_NO_BOOST s)) = SCHED_BOOST_NONE"
    by (simp add: case_NO_BOOST_aggregate derive_policy_def)
  have rc: "boost_refcount (publish env (case_NO_BOOST s)) k = 0"
    if "0 \<le>s boost_refcount s k"
      and "k = FULL_THROTTLE_BOOST \<or> k = CONSERVATIVE_BOOST \<or> k = RESTRAINED_BOOST" for k
    using that sle_not_sless_zero [of "boost_refcount s k"]
    by (auto simp: case_NO_BOOST_refcount)
  show ?thesis
    unfolding s' using kind policy rc by simp
qed

theorem clear_all_result_witness:
  "0 \<le>s boost_refcount
       (run_boosts env_homogeneous [FULL_THROTTLE_BOOST, RESTRAINED_BOOST, RESTRAINED_BOOST]
         boost_init) FULL_THROTTLE_BOOST
   \<and> 0 \<le>s boost_refcount
       (run_boosts env_homogeneous [FULL_THROTTLE_BOOST, RESTRAINED_BOOST, RESTRAINED_BOOST]
         boost_init) CONSERVATIVE_BOOST
   \<and> 0 \<le>s boost_refcount
       (run_boosts env_homogeneous [FULL_THROTTLE_BOOST, RESTRAINED_BOOST, RESTRAINED_BOOST]
         boost_init) RESTRAINED_BOOST
   \<and> boost_refcount
       (run_boosts env_homogeneous [FULL_THROTTLE_BOOST, RESTRAINED_BOOST, RESTRAINED_BOOST]
         boost_init) RESTRAINED_BOOST = 2
   \<and> boost_refcount (fst (sched_set_boost env_homogeneous NO_BOOST
       (run_boosts env_homogeneous [FULL_THROTTLE_BOOST, RESTRAINED_BOOST, RESTRAINED_BOOST]
         boost_init))) FULL_THROTTLE_BOOST = 0
   \<and> boost_refcount (fst (sched_set_boost env_homogeneous NO_BOOST
       (run_boosts env_homogeneous [FULL_THROTTLE_BOOST, RESTRAINED_BOOST, RESTRAINED_BOOST]
         boost_init))) CONSERVATIVE_BOOST = 0
   \<and> boost_refcount (fst (sched_set_boost env_homogeneous NO_BOOST
       (run_boosts env_homogeneous [FULL_THROTTLE_BOOST, RESTRAINED_BOOST, RESTRAINED_BOOST]
         boost_init))) RESTRAINED_BOOST = 0
   \<and> sched_boost_type (fst (sched_set_boost env_homogeneous NO_BOOST
       (run_boosts env_homogeneous [FULL_THROTTLE_BOOST, RESTRAINED_BOOST, RESTRAINED_BOOST]
         boost_init))) = NO_BOOST"
proof -
  let ?s = "run_boosts env_homogeneous [FULL_THROTTLE_BOOST, RESTRAINED_BOOST, RESTRAINED_BOOST]
    boost_init"
  have a: "0 \<le>s boost_refcount ?s FULL_THROTTLE_BOOST"
    and b: "0 \<le>s boost_refcount ?s CONSERVATIVE_BOOST"
    and c: "0 \<le>s boost_refcount ?s RESTRAINED_BOOST"
    and d: "boost_refcount ?s RESTRAINED_BOOST = 2"
    by code_simp+
  from clear_all_result [of env_homogeneous ?s] a b c d
  show ?thesis by (simp only: simp_thms)
qed

text \<open>
  C5 as the claim words it, for every prior state, fails in the state that \<open>2^31\<close>
  enable requests of FullThrottle reach from the initial state: the clear-all request
  leaves the FullThrottle refcount at \<open>INT_MIN\<close>.
\<close>

theorem clear_all_result_counterexample:
  "boost_refcount
     (run_boosts env_homogeneous (replicate (2 ^ 31) FULL_THROTTLE_BOOST @ [NO_BOOST]) boost_init)
     FULL_THROTTLE_BOOST \<noteq> 0"
proof -
  let ?s1 = "run_boosts env_homogeneous (replicate (2 ^ 31) FULL_THROTTLE_BOOST) boost_init"
  have s1: "boost_refcount ?s1 FULL_THROTTLE_BOOST = word_of_nat (2 ^ 31)"
    by (rule wrapped_refcount)
  have neg: "\<not> 0 <s boost_refcount ?s1 FULL_THROTTLE_BOOST"
    unfolding s1 word_sless_alt by simp
  have "boost_refcount (fst (sched_set_boost env_homogeneous NO_BOOST ?s1)) FULL_THROTTLE_BOOST =
      boost_refcount ?s1 FULL_THROTTLE_BOOST"
    using neg by (simp add: clear_refcount case_NO_BOOST_refcount)
  moreover have "word_of_nat (2 ^ 31) \<noteq> (0 :: c_int)"
    by simp
  ultimately show ?thesis
    unfolding run_boosts_snoc s1 by simp
qed

subsection \<open>Enable N times, disable N times\<close>

lemma boot_policy_dt_run:
  "boost_policy_dt (run_boosts env reqs s) = boost_policy_dt s"
proof (induction reqs arbitrary: s)
  case Nil
  then show ?case by simp
next
  case (Cons t reqs)
  have "boost_policy_dt (fst (sched_set_boost env t s)) = boost_policy_dt s"
  proof (cases "t \<in> legal_requests")
    case True
    then obtain s1 where "u_sched_set_boost env t s = publish env s1"
      and "boost_policy_dt s1 = boost_policy_dt s"
      by (rule legal_requestsE)
    with True show ?thesis by (simp add: sched_set_boost_legal)
  next
    case False
    then show ?thesis by (simp add: sched_set_boost_illegal)
  qed
  with Cons.IH show ?case by simp
qed

lemma published_consistent_boot: "published_consistent env (boot dt)"
  by (simp add: published_consistent_def aggregate_def derive_policy_def NO_BOOST_def)

lemma published_consistent_step:
  assumes "published_consistent env s"
  shows "published_consistent env (fst (sched_set_boost env t s))"
proof (cases "t \<in> legal_requests")
  case True
  then obtain s1 where "u_sched_set_boost env t s = publish env s1"
    by (rule legal_requestsE)
  with True show ?thesis
    by (simp add: sched_set_boost_legal published_consistent_def boot_override_def)
next
  case False
  with assms show ?thesis by (simp add: sched_set_boost_illegal)
qed

lemma published_consistent_run:
  "published_consistent env s \<Longrightarrow> published_consistent env (run_boosts env reqs s)"
  by (induction reqs arbitrary: s) (simp_all add: published_consistent_step)

lemma published_consistent_eq:
  assumes "published_consistent env s" and "published_consistent env s'"
    and "boost_refcount s' = boost_refcount s" and "boost_policy_dt s' = boost_policy_dt s"
  shows "sched_boost_type s' = sched_boost_type s \<and> boost_policy s' = boost_policy s
    \<and> sysctl_sched_boost s' = sysctl_sched_boost s"
  using assms by (simp add: published_consistent_def boot_override_def)

lemma round_trip_refcount:
  assumes k: "(k, d) \<in> boost_kinds"
    and nonneg: "0 \<le> sint (boost_refcount s k)"
    and room: "sint (boost_refcount s k) + int N < 2147483648"
  shows "boost_refcount (run_boosts env (replicate N k @ replicate N d) s) = boost_refcount s"
proof -
  let ?s1 = "run_boosts env (replicate N k) s"
  have s1: "boost_refcount ?s1 = (boost_refcount s)(k := boost_refcount s k + of_nat N)"
    by (rule enable_n [OF k])
  have "sint (boost_refcount ?s1 k) = sint (boost_refcount s k) + int N"
    using nonneg room by (simp add: s1 sint_add_nat)
  with nonneg have "int N \<le> sint (boost_refcount ?s1 k)" by simp
  from disable_n [OF k this, of env]
  show ?thesis
    by (simp add: run_boosts_append s1)
qed

text \<open>
  C7, as the code has it. In every state reached from boot by a sequence of requests, for
  every kind whose refcount \<open>r\<close> is at least 0 and every \<open>N\<close> with \<open>r + N\<close> at most
  \<open>INT_MAX\<close>: \<open>N\<close> enable requests of the kind followed by \<open>N\<close> matching disable
  requests give back the refcount table and the published kind, policy and
  \<open>sysctl_sched_boost\<close> as they were before. The states reached through the endpoint
  are among these (\<open>handler_as_set_boost\<close>).
\<close>

theorem enable_disable_round_trip:
  assumes "(k, d) \<in> boost_kinds"
    and "0 \<le>s boost_refcount (run_boosts env reqs (boot dt)) k"
    and "sint (boost_refcount (run_boosts env reqs (boot dt)) k) + int N < 2 ^ 31"
  shows "boost_refcount (run_boosts env (reqs @ replicate N k @ replicate N d) (boot dt)) =
           boost_refcount (run_boosts env reqs (boot dt))
     \<and> sched_boost_type (run_boosts env (reqs @ replicate N k @ replicate N d) (boot dt)) =
         sched_boost_type (run_boosts env reqs (boot dt))
     \<and> boost_policy (run_boosts env (reqs @ replicate N k @ replicate N d) (boot dt)) =
         boost_policy (run_boosts env reqs (boot dt))
     \<and> sysctl_sched_boost (run_boosts env (reqs @ replicate N k @ replicate N d) (boot dt)) =
         sysctl_sched_boost (run_boosts env reqs (boot dt))"
proof -
  let ?s = "run_boosts env reqs (boot dt)"
  let ?s' = "run_boosts env (replicate N k @ replicate N d) ?s"
  have s': "run_boosts env (reqs @ replicate N k @ replicate N d) (boot dt) = ?s'"
    by (simp only: run_boosts_append)
  have nonneg: "0 \<le> sint (boost_refcount ?s k)"
    using assms(2) by (simp add: word_sle_eq)
  have room: "sint (boost_refcount ?s k) + int N < 2147483648"
    using assms(3) by simp
  have rc: "boost_refcount ?s' = boost_refcount ?s"
    using assms(1) nonneg room by (rule round_trip_refcount)
  have c: "published_consistent env ?s"
    by (intro published_consistent_run published_consistent_boot)
  then have c': "published_consistent env ?s'"
    by (rule published_consistent_run)
  have dt: "boost_policy_dt ?s' = boost_policy_dt ?s"
    by (rule boot_policy_dt_run)
  from published_consistent_eq [OF c c' rc dt] rc show ?thesis
    unfolding s' by simp
qed

theorem enable_disable_round_trip_witness:
  "(FULL_THROTTLE_BOOST, FULL_THROTTLE_BOOST_DISABLE) \<in> boost_kinds
   \<and> 0 \<le>s boost_refcount (run_boosts env_homogeneous [CONSERVATIVE_BOOST] (boot Map.empty))
        FULL_THROTTLE_BOOST
   \<and> sint (boost_refcount (run_boosts env_homogeneous [CONSERVATIVE_BOOST] (boot Map.empty))
        FULL_THROTTLE_BOOST) + int 2 < 2 ^ 31
   \<and> boost_refcount (run_boosts env_homogeneous
        ([CONSERVATIVE_BOOST] @ replicate 2 FULL_THROTTLE_BOOST
          @ replicate 2 FULL_THROTTLE_BOOST_DISABLE) (boot Map.empty)) =
       boost_refcount (run_boosts env_homogeneous [CONSERVATIVE_BOOST] (boot Map.empty))
   \<and> sched_boost_type (run_boosts env_homogeneous
        ([CONSERVATIVE_BOOST] @ replicate 2 FULL_THROTTLE_BOOST
          @ replicate 2 FULL_THROTTLE_BOOST_DISABLE) (boot Map.empty)) =
       CONSERVATIVE_BOOST"
proof -
  let ?s = "run_boosts env_homogeneous [CONSERVATIVE_BOOST] (boot Map.empty)"
  have k: "(FULL_THROTTLE_BOOST, FULL_THROTTLE_BOOST_DISABLE) \<in> boost_kinds"
    by (rule full_throttle_kind)
  have rc: "boost_refcount ?s FULL_THROTTLE_BOOST = 0"
    by code_simp
  have nonneg: "0 \<le>s boost_refcount ?s FULL_THROTTLE_BOOST"
    unfolding rc word_sle_eq by simp
  have room: "sint (boost_refcount ?s FULL_THROTTLE_BOOST) + int 2 < 2 ^ 31"
    unfolding rc by simp
  have kind: "sched_boost_type ?s = CONSERVATIVE_BOOST"
    by code_simp
  from enable_disable_round_trip [OF k nonneg room] kind k nonneg room
  show ?thesis by (simp only: simp_thms)
qed

text \<open>
  C7 as the claim words it, for every \<open>N\<close>, fails for FullThrottle and \<open>N = 2^31\<close> from
  the initial state: the enables wrap the refcount to \<open>INT_MIN\<close>, every disable finds
  it below 1 and leaves it, and the table does not return to 0.
\<close>

theorem enable_disable_round_trip_counterexample:
  "boost_refcount
     (run_boosts env_homogeneous
       (replicate (2 ^ 31) FULL_THROTTLE_BOOST @ replicate (2 ^ 31) FULL_THROTTLE_BOOST_DISABLE)
       boost_init)
     FULL_THROTTLE_BOOST \<noteq>
   boost_refcount boost_init FULL_THROTTLE_BOOST"
proof -
  let ?s1 = "run_boosts env_homogeneous (replicate (2 ^ 31) FULL_THROTTLE_BOOST) boost_init"
  have s1: "boost_refcount ?s1 FULL_THROTTLE_BOOST = word_of_nat (2 ^ 31)"
    by (rule wrapped_refcount)
  have "\<not> 1 \<le>s boost_refcount ?s1 FULL_THROTTLE_BOOST"
    unfolding s1 word_sle_eq by simp
  then have a: "boost_refcount
      (run_boosts env_homogeneous (replicate (2 ^ 31) FULL_THROTTLE_BOOST_DISABLE) ?s1) =
      boost_refcount ?s1"
    by (rule disable_n_noop [OF full_throttle_kind])
  have c: "boost_refcount boost_init FULL_THROTTLE_BOOST = 0"
    by (simp add: boost_init_def)
  have d: "word_of_nat (2 ^ 31) \<noteq> (0 :: c_int)"
    by simp
  show ?thesis
    unfolding run_boosts_append a s1 c by (rule d)
qed


end
